theory Spec2Isabelle
  imports Complex_Main "HOL-Library.AList"
begin

section \<open>Common Python notions\<close>

text \<open>
  Exceptions of the Python source are values. Only the exception classes that the
  modelled functions can raise are listed.
\<close>

datatype error = ValueError | KeyError | IndexError | OSError

text \<open>
  \<open>min(items, key=f)\<close>: raises \<open>ValueError\<close> on an empty sequence (\<open>None\<close> here);
  otherwise it walks the sequence and replaces the running minimum only by a strictly
  smaller element, so among equal keys the first one in iteration order wins.
\<close>

fun py_min :: "('a \<Rightarrow> real) \<Rightarrow> 'a list \<Rightarrow> 'a option" where
  "py_min f [] = None"
| "py_min f (x # xs) = Some (fold (\<lambda>y m. if f y < f m then y else m) xs x)"

text \<open>
  \<open>xs[i]\<close> on a Python list: a negative index counts from the end, an index out of
  range raises \<open>IndexError\<close> (\<open>None\<close> here).
\<close>

definition py_index :: "'a list \<Rightarrow> int \<Rightarrow> 'a option" where
  "py_index xs i =
     (if 0 \<le> i \<and> i < int (length xs) then Some (xs ! nat i)
      else if - int (length xs) \<le> i \<and> i < 0 then Some (xs ! nat (int (length xs) + i))
      else None)"

section \<open>CacheManager (services/cache\_manager.py)\<close>

text \<open>
  An entry is a dictionary. \<open>set\<close> writes \<open>{'value': v, 'timestamp': t}\<close>, but
  \<open>load_cache\<close> reads only \<open>v['timestamp']\<close> of what it finds in the backing file, so
  an entry of the store has a timestamp and may lack the key \<open>'value'\<close>
  (\<open>entry_value = None\<close>). Timestamps are the results of \<open>time.time()\<close>; they are
  modelled as real numbers and every function that reads the clock takes the reading
  \<open>now\<close> as an argument.
\<close>

record 'v entry =
  entry_value :: "'v option"
  timestamp :: real

text \<open>
  \<open>self.cache\<close> is a Python \<open>dict\<close>, which iterates in insertion order: an
  association list. Assigning to a key that is present keeps its position
  (\<open>AList.update\<close>), a new key goes to the end, \<open>del\<close> removes the key
  (\<open>AList.delete\<close>).
\<close>

type_synonym 'v cache_dict = "(string \<times> 'v entry) list"

record 'v cache_manager =
  name :: string
  cache :: "'v cache_dict"
  max_size :: int
  ttl :: real

type_synonym bytes = string

text \<open>The disk: the content of every path that exists.\<close>

type_synonym filesystem = "string \<rightharpoonup> bytes"

definition cache_file :: "'v cache_manager \<Rightarrow> string" where
  "cache_file s = ''cache_'' @ name s @ ''.json''"

definition backup_file :: "'v cache_manager \<Rightarrow> string" where
  "backup_file s = ''cache_'' @ name s @ ''_backup.json''"

text \<open>
  \<open>Path.rename\<close> on a POSIX system, for a source that exists: the target is replaced
  and the source disappears.
\<close>

definition rename :: "string \<Rightarrow> string \<Rightarrow> filesystem \<Rightarrow> filesystem" where
  "rename src dst fs = (fs(dst := fs src))(src := None)"

subsection \<open>load\_cache\<close>

text \<open>
  What \<open>json.load\<close> makes of the backing file is a parameter of the model
  (\<open>json_load\<close>): \<open>None\<close> when decoding raises, otherwise the decoded document. A
  document is a JSON object (a list of items with distinct keys) or anything else, on
  which \<open>data.items()\<close> raises. An item is an entry with a usable timestamp, with
  or without the key \<open>'value'\<close>, or a value on which \<open>v['timestamp']\<close> or the comparison
  raises.
\<close>

datatype 'v json_item = Item "'v entry" | BadItem

datatype 'v json_doc = Object "(string \<times> 'v json_item) list" | NotObject

text \<open>
  The dictionary comprehension of \<open>load_cache\<close>: the condition is evaluated on every
  item, so one bad item raises and the whole comprehension is lost.
\<close>

fun valid_entries :: "real \<Rightarrow> real \<Rightarrow> (string \<times> 'v json_item) list \<Rightarrow> error + 'v cache_dict" where
  "valid_entries now t [] = Inr []"
| "valid_entries now t ((k, BadItem) # xs) = Inl KeyError"
| "valid_entries now t ((k, Item e) # xs) =
     (case valid_entries now t xs of
        Inl err \<Rightarrow> Inl err
      | Inr ys \<Rightarrow> Inr (if now - timestamp e < t then (k, e) # ys else ys))"

text \<open>
  \<open>read_fails\<close> says that \<open>open\<close> or the read raises although the file exists. Every
  exception of the \<open>try\<close> block ends in \<open>self.cache = {}\<close>; a missing file leaves
  \<open>self.cache\<close> as it is.
\<close>

definition load_cache ::
  "(bytes \<Rightarrow> 'v json_doc option) \<Rightarrow> bool \<Rightarrow> real \<Rightarrow> filesystem \<Rightarrow> 'v cache_manager \<Rightarrow> 'v cache_manager" where
  "load_cache json_load read_fails now fs s =
     (case fs (cache_file s) of
        None \<Rightarrow> s
      | Some content \<Rightarrow>
          if read_fails then s\<lparr>cache := []\<rparr>
          else (case json_load content of
                  None \<Rightarrow> s\<lparr>cache := []\<rparr>
                | Some NotObject \<Rightarrow> s\<lparr>cache := []\<rparr>
                | Some (Object items) \<Rightarrow>
                    (case valid_entries now (ttl s) items of
                       Inl err \<Rightarrow> s\<lparr>cache := []\<rparr>
                     | Inr kept \<Rightarrow> s\<lparr>cache := kept\<rparr>)))"

text \<open>\<open>CacheManager.__init__\<close>: the fields are set, then \<open>load_cache\<close> runs.\<close>

definition new_cache_manager ::
  "(bytes \<Rightarrow> 'v json_doc option) \<Rightarrow> bool \<Rightarrow> real \<Rightarrow> filesystem \<Rightarrow> string \<Rightarrow> int \<Rightarrow> real \<Rightarrow> 'v cache_manager" where
  "new_cache_manager json_load read_fails now fs nm msize t =
     load_cache json_load read_fails now fs \<lparr>name = nm, cache = [], max_size = msize, ttl = t\<rparr>"

subsection \<open>save\_cache\<close>

text \<open>
  The faults that the disk can inject into one call of \<open>save_cache\<close>: the rename of
  the backing file to the backup path raises; \<open>open\<close> raises (\<open>OpenFails\<close>, the path is
  not touched) or \<open>json.dump\<close> raises after \<open>open\<close> has truncated or created the file
  and some prefix has been written (\<open>DumpFails\<close>); the rename in the handler raises.
  \<open>json.dump\<close> itself is the parameter \<open>dumps\<close>.
\<close>

datatype write_outcome = Written | OpenFails | DumpFails bytes

record faults =
  backup_rename_fails :: bool
  write_result :: write_outcome
  restore_rename_fails :: bool

text \<open>
  The \<open>try\<close> block: \<open>Inr\<close> the disk after a normal end, \<open>Inl\<close> the disk at the moment
  an exception is raised.
\<close>

definition save_try :: "('v cache_dict \<Rightarrow> bytes) \<Rightarrow> faults \<Rightarrow> 'v cache_manager \<Rightarrow> filesystem \<Rightarrow> filesystem + filesystem" where
  "save_try dumps flt s fs =
     (if fs (cache_file s) \<noteq> None \<and> backup_rename_fails flt then Inl fs
      else
        let fs1 = (if fs (cache_file s) \<noteq> None then rename (cache_file s) (backup_file s) fs else fs)
        in (case write_result flt of
              Written \<Rightarrow> Inr (fs1(cache_file s \<mapsto> dumps (cache s)))
            | OpenFails \<Rightarrow> Inl fs1
            | DumpFails partial \<Rightarrow> Inl (fs1(cache_file s \<mapsto> partial))))"

text \<open>
  \<open>save_cache\<close> reads \<open>self.cache\<close> and never assigns it, so it returns the disk only,
  with the exception that leaves the handler, if any.
\<close>

definition save_cache :: "('v cache_dict \<Rightarrow> bytes) \<Rightarrow> faults \<Rightarrow> 'v cache_manager \<Rightarrow> filesystem \<Rightarrow> error option \<times> filesystem" where
  "save_cache dumps flt s fs =
     (case save_try dumps flt s fs of
        Inr fs' \<Rightarrow> (None, fs')
      | Inl fs' \<Rightarrow>
          if fs' (backup_file s) \<noteq> None then
            (if restore_rename_fails flt then (Some OSError, fs')
             else (None, rename (backup_file s) (cache_file s) fs'))
          else (None, fs'))"

subsection \<open>get and set\<close>

text \<open>
  \<open>get\<close> has no \<open>try\<close>: \<open>entry['value']\<close> raises \<open>KeyError\<close> on an entry without
  that key (\<open>Inl\<close>; nothing has been assigned then). \<open>key in self.cache\<close> guards the
  first subscript and every entry has a timestamp, so nothing else raises.
\<close>

definition get_cache :: "real \<Rightarrow> string \<Rightarrow> 'v cache_manager \<Rightarrow> error + ('v option \<times> 'v cache_manager)" where
  "get_cache now key s =
     (case map_of (cache s) key of
        None \<Rightarrow> Inr (None, s)
      | Some e \<Rightarrow>
          if now - timestamp e < ttl s then
            (case entry_value e of
               None \<Rightarrow> Inl KeyError
             | Some v \<Rightarrow> Inr (Some v, s))
          else Inr (None, s\<lparr>cache := AList.delete key (cache s)\<rparr>))"

text \<open>
  The part of \<open>set\<close> before \<open>self.save_cache()\<close>: \<open>Inl\<close> when \<open>min\<close> raises, which
  happens before anything is assigned.
\<close>

definition set_entries :: "real \<Rightarrow> string \<Rightarrow> 'v \<Rightarrow> 'v cache_manager \<Rightarrow> error + 'v cache_manager" where
  "set_entries now key v s =
     (if int (length (cache s)) \<ge> max_size s then
        (case py_min (\<lambda>x. timestamp (snd x)) (cache s) of
           None \<Rightarrow> Inl ValueError
         | Some oldest \<Rightarrow>
             Inr (s\<lparr>cache := AList.update key \<lparr>entry_value = Some v, timestamp = now\<rparr>
                                (AList.delete (fst oldest) (cache s))\<rparr>))
      else Inr (s\<lparr>cache := AList.update key \<lparr>entry_value = Some v, timestamp = now\<rparr> (cache s)\<rparr>))"

text \<open>
  \<open>set\<close>: the exception, if one escapes, the store and the disk after the call.
\<close>

definition set_cache ::
  "('v cache_dict \<Rightarrow> bytes) \<Rightarrow> faults \<Rightarrow> real \<Rightarrow> string \<Rightarrow> 'v \<Rightarrow> 'v cache_manager \<times> filesystem
     \<Rightarrow> error option \<times> 'v cache_manager \<times> filesystem" where
  "set_cache dumps flt now key v w =
     (case set_entries now key v (fst w) of
        Inl err \<Rightarrow> (Some err, fst w, snd w)
      | Inr s' \<Rightarrow> (case save_cache dumps flt s' (snd w) of (exc, fs') \<Rightarrow> (exc, s', fs')))"

text \<open>A sequence of \<open>set\<close> calls, each with its own clock reading and disk faults.\<close>

record 'v set_call =
  call_faults :: faults
  call_now :: real
  call_key :: string
  call_value :: 'v

fun set_calls :: "('v cache_dict \<Rightarrow> bytes) \<Rightarrow> 'v set_call list \<Rightarrow> 'v cache_manager \<times> filesystem \<Rightarrow> 'v cache_manager \<times> filesystem" where
  "set_calls dumps [] w = w"
| "set_calls dumps (c # cs) w =
     set_calls dumps cs
       (snd (set_cache dumps (call_faults c) (call_now c) (call_key c) (call_value c) w))"

section \<open>VideoManager (services/video\_manager.py)\<close>

text \<open>
  The configuration is the decoded \<open>config/video_config.json\<close>. The constructor reads
  \<open>config['video_files']['idle']\<close> and \<open>config['video_files']['talking']\<close>, so both
  exist in every constructed manager; \<open>config['idle_pattern']\<close> and the keys
  \<open>'video'\<close> and \<open>'repeat'\<close> of a pattern step are read later and may be missing
  (\<open>None\<close>, a \<open>KeyError\<close> when read).
\<close>

record pattern_step =
  video :: "string option"
  repeat :: "int option"

record video_config =
  idle :: "string \<rightharpoonup> string"
  talking :: "string list"
  idle_pattern :: "pattern_step list option"

text \<open>The value of \<open>self.video_dir / video_name\<close>, kept symbolic.\<close>

datatype video_path = PathJoin string string

text \<open>
  The fields that \<open>get_next_idle_video\<close> and \<open>get_talking_video\<close> read or assign.
\<close>

record video_manager =
  video_dir :: string
  config :: video_config
  current_idle_index :: int
  current_repeat :: int

text \<open>
  The \<open>try\<close> block of \<open>get_next_idle_video\<close>: every subscript that can raise is a
  branch, in the order of the source. Nothing is assigned before the last of them.
\<close>

definition next_idle_try :: "video_manager \<Rightarrow> error + ((video_path \<times> bool) \<times> video_manager)" where
  "next_idle_try vm =
     (case idle_pattern (config vm) of
        None \<Rightarrow> Inl KeyError
      | Some pat \<Rightarrow>
          (case py_index pat (current_idle_index vm) of
             None \<Rightarrow> Inl IndexError
           | Some pattern \<Rightarrow>
               (case video pattern of
                  None \<Rightarrow> Inl KeyError
                | Some key \<Rightarrow>
                    (case idle (config vm) key of
                       None \<Rightarrow> Inl KeyError
                     | Some video_name \<Rightarrow>
                         (case repeat pattern of
                            None \<Rightarrow> Inl KeyError
                          | Some r \<Rightarrow>
                              if current_repeat vm \<ge> r - 1 then
                                Inr ((PathJoin (video_dir vm) video_name, True),
                                     vm\<lparr>current_repeat := 0,
                                        current_idle_index :=
                                          (current_idle_index vm + 1) mod int (length pat)\<rparr>)
                              else
                                Inr ((PathJoin (video_dir vm) video_name, False),
                                     vm\<lparr>current_repeat := current_repeat vm + 1\<rparr>))))))"

text \<open>
  \<open>get_next_idle_video\<close>: the handler returns the idle video of key \<open>'00'\<close>; its own
  subscript is outside any \<open>try\<close>, so a \<open>KeyError\<close> there leaves the function.
\<close>

definition get_next_idle_video :: "video_manager \<Rightarrow> error + ((video_path \<times> bool) \<times> video_manager)" where
  "get_next_idle_video vm =
     (case next_idle_try vm of
        Inr r \<Rightarrow> Inr r
      | Inl e \<Rightarrow>
          (case idle (config vm) ''00'' of
             None \<Rightarrow> Inl KeyError
           | Some fallback_video \<Rightarrow> Inr ((PathJoin (video_dir vm) fallback_video, True), vm)))"

text \<open>\<open>n\<close> calls in a row; the first exception ends the run.\<close>

fun idle_steps :: "nat \<Rightarrow> video_manager \<Rightarrow> error + ((video_path \<times> bool) list \<times> video_manager)" where
  "idle_steps 0 vm = Inr ([], vm)"
| "idle_steps (Suc n) vm =
     (case get_next_idle_video vm of
        Inl e \<Rightarrow> Inl e
      | Inr (out, vm') \<Rightarrow>
          (case idle_steps n vm' of
             Inl e \<Rightarrow> Inl e
           | Inr (outs, vm'') \<Rightarrow> Inr (out # outs, vm'')))"

definition get_talking_video :: "int \<Rightarrow> video_manager \<Rightarrow> error + video_path" where
  "get_talking_video text_length vm =
     (let talking_videos = talking (config vm);
          tried = (if text_length < 50 then py_index talking_videos 0
                   else if text_length < 100 then py_index talking_videos 1
                   else py_index talking_videos 2)
      in case tried of
           Some video_name \<Rightarrow> Inr (PathJoin (video_dir vm) video_name)
         | None \<Rightarrow>
             (case py_index talking_videos 0 of
                Some video_name \<Rightarrow> Inr (PathJoin (video_dir vm) video_name)
              | None \<Rightarrow> Inl IndexError))"

section \<open>SyncManager (services/sync\_manager.py)\<close>

text \<open>
  \<open>video_data\<close> is the dictionary handed to \<open>sync_media\<close>; the code reads its keys
  \<open>'path'\<close> and \<open>'duration'\<close> with \<open>dict.get\<close>, so each may be missing.
\<close>

record video_data =
  path :: "string option"
  duration :: "real option"

text \<open>
  A task made by \<open>asyncio.create_task(self._play_synced())\<close> is a coroutine frame: where
  it is suspended, and the locals it holds there. asyncio runs one coroutine at a time
  and switches only at an \<open>await\<close> that suspends, so the manager is a state machine
  whose steps are the stretches of code between two suspensions.
\<close>

datatype task =
    Created
  | AwaitVideo
  | AwaitAudio video_data
  | Sleeping video_data bytes real
  | Finished
  | Cancelled

text \<open>
  \<open>Created\<close>: scheduled, body not entered. \<open>AwaitVideo\<close>, \<open>AwaitAudio\<close>: suspended
  in \<open>Queue.get\<close> on an empty queue. \<open>Sleeping v a wake\<close>: suspended in
  \<open>asyncio.sleep\<close> until the clock reaches \<open>wake\<close>. \<open>Finished\<close>: returned.
  \<open>Cancelled\<close>: ended by \<open>CancelledError\<close>. \<open>tasks\<close> holds every task ever created;
  \<open>current_task\<close> is an index into it.
\<close>

record sync_manager =
  tasks :: "task list"
  current_task :: "nat option"
  video_queue :: "video_data list"
  audio_queue :: "bytes list"
  is_playing :: bool
  current_video_path :: "string option"
  current_audio_data :: "bytes option"
  start_time :: real

definition new_sync_manager :: sync_manager where
  "new_sync_manager =
     \<lparr>tasks = [], current_task = None, video_queue = [], audio_queue = [],
      is_playing = False, current_video_path = None, current_audio_data = None,
      start_time = 0\<rparr>"

definition task_done :: "task \<Rightarrow> bool" where
  "task_done t = (t = Finished \<or> t = Cancelled)"

text \<open>
  The \<open>except\<close> and \<open>finally\<close> clauses of \<open>_play_synced\<close> when \<open>CancelledError\<close> is
  raised at an \<open>await\<close> inside the \<open>try\<close>; the coroutine then returns normally.
\<close>

definition cancelled_inside :: "nat \<Rightarrow> sync_manager \<Rightarrow> sync_manager" where
  "cancelled_inside i s =
     s\<lparr>is_playing := False, current_video_path := None, current_audio_data := None,
       start_time := 0, tasks := (tasks s)[i := Finished]\<rparr>"

text \<open>
  The event loop delivers a requested cancellation to task \<open>i\<close>. A task that has not
  started is ended without entering its body, so neither handler runs.
\<close>

definition deliver_cancel :: "nat \<Rightarrow> sync_manager \<Rightarrow> sync_manager" where
  "deliver_cancel i s =
     (case tasks s ! i of
        Created \<Rightarrow> s\<lparr>tasks := (tasks s)[i := Cancelled]\<rparr>
      | AwaitVideo \<Rightarrow> cancelled_inside i s
      | AwaitAudio v \<Rightarrow> cancelled_inside i s
      | Sleeping v a wake \<Rightarrow> cancelled_inside i s
      | Finished \<Rightarrow> s
      | Cancelled \<Rightarrow> s)"

text \<open>
  \<open>stop_current_playback\<close>: \<open>cancel()\<close>, then \<open>await self.current_task\<close>, which
  suspends the caller until the task has ended; both exceptions of the \<open>await\<close> are
  caught.
\<close>

definition stop_current_playback :: "sync_manager \<Rightarrow> sync_manager" where
  "stop_current_playback s =
     (case current_task s of
        None \<Rightarrow> s
      | Some i \<Rightarrow>
          if i < length (tasks s) \<and> \<not> task_done (tasks s ! i) then deliver_cancel i s else s)"

definition clear_queues :: "sync_manager \<Rightarrow> sync_manager" where
  "clear_queues s = s\<lparr>video_queue := [], audio_queue := []\<rparr>"

text \<open>
  \<open>sync_media\<close>: the queues are unbounded, so \<open>put\<close> neither suspends nor raises, and
  no statement of the \<open>try\<close> block raises: the result is \<open>True\<close>. \<open>create_task\<close>
  schedules the new task and returns at once.
\<close>

definition sync_media :: "video_data \<Rightarrow> bytes \<Rightarrow> sync_manager \<Rightarrow> bool \<times> sync_manager" where
  "sync_media v a s =
     (let s1 = stop_current_playback s;
          s2 = clear_queues s1;
          s3 = s2\<lparr>video_queue := video_queue s2 @ [v], audio_queue := audio_queue s2 @ [a]\<rparr>;
          s4 = s3\<lparr>tasks := tasks s3 @ [Created], current_task := Some (length (tasks s3))\<rparr>
      in (True, s4\<lparr>is_playing := True\<rparr>))"

text \<open>
  \<open>_play_synced\<close> from \<open>audio_queue.get()\<close> on, with \<open>video_data\<close> already taken:
  the fields are assigned and the task suspends in \<open>asyncio.sleep(video_duration)\<close>.
\<close>

definition play_get_audio :: "nat \<Rightarrow> real \<Rightarrow> video_data \<Rightarrow> sync_manager \<Rightarrow> sync_manager" where
  "play_get_audio i now v s =
     (case audio_queue s of
        [] \<Rightarrow> s\<lparr>tasks := (tasks s)[i := AwaitAudio v]\<rparr>
      | a # rest \<Rightarrow>
          s\<lparr>audio_queue := rest,
            current_video_path := path v,
            current_audio_data := Some a,
            start_time := now,
            tasks := (tasks s)[i := Sleeping v a
                        (now + (case duration v of None \<Rightarrow> 0 | Some d \<Rightarrow> d))]\<rparr>)"

definition play_get_video :: "nat \<Rightarrow> real \<Rightarrow> sync_manager \<Rightarrow> sync_manager" where
  "play_get_video i now s =
     (case video_queue s of
        [] \<Rightarrow> s\<lparr>tasks := (tasks s)[i := AwaitVideo]\<rparr>
      | v # rest \<Rightarrow> play_get_audio i now v (s\<lparr>video_queue := rest\<rparr>))"

text \<open>The statements after \<open>asyncio.sleep\<close> and the \<open>finally\<close> clause.\<close>

definition play_complete :: "nat \<Rightarrow> sync_manager \<Rightarrow> sync_manager" where
  "play_complete i s =
     s\<lparr>is_playing := False, current_video_path := None, current_audio_data := None,
       start_time := 0, tasks := (tasks s)[i := Finished]\<rparr>"

text \<open>
  The event loop runs task \<open>i\<close> at time \<open>now\<close> up to its next suspension. A sleeping
  task goes on once its wake-up time is reached; \<open>sleep\<close> of a delay that is not
  positive only yields, which is a wake-up time that is already reached.
\<close>

definition run_task :: "nat \<Rightarrow> real \<Rightarrow> sync_manager \<Rightarrow> sync_manager" where
  "run_task i now s =
     (if length (tasks s) \<le> i then s
      else (case tasks s ! i of
              Created \<Rightarrow> play_get_video i now s
            | AwaitVideo \<Rightarrow> play_get_video i now s
            | AwaitAudio v \<Rightarrow> play_get_audio i now v s
            | Sleeping v a wake \<Rightarrow> if wake \<le> now then play_complete i s else s
            | Finished \<Rightarrow> s
            | Cancelled \<Rightarrow> s))"

record playback_status =
  st_is_playing :: bool
  st_current_video :: "string option"
  st_has_audio :: bool
  st_elapsed_time :: real

definition get_playback_status :: "real \<Rightarrow> sync_manager \<Rightarrow> playback_status" where
  "get_playback_status current_time s =
     \<lparr>st_is_playing = is_playing s,
      st_current_video = current_video_path s,
      st_has_audio = (current_audio_data s \<noteq> None),
      st_elapsed_time = (if start_time s > 0 then current_time - start_time s else 0)\<rparr>"







section \<open>Properties of the cache\<close>

subsection \<open>Auxiliary facts on \<open>min\<close> and on association lists\<close>

lemma fold_min_first:
  fixes f :: "'a \<Rightarrow> real"
  assumes "\<forall>a\<in>set A. f m < f a" and "\<forall>b\<in>set B. f m \<le> f b"
  shows "\<exists>pre post. A @ m # B @ xs = pre @ fold (\<lambda>y m. if f y < f m then y else m) xs m # post
            \<and> (\<forall>x\<in>set pre. f (fold (\<lambda>y m. if f y < f m then y else m) xs m) < f x)
            \<and> (\<forall>x\<in>set post. f (fold (\<lambda>y m. if f y < f m then y else m) xs m) \<le> f x)"
  using assms
proof (induction xs arbitrary: A m B)
  case Nil
  then show ?case by auto
next
  case (Cons y ys)
  show ?case
  proof (cases "f y < f m")
    case True
    have a: "\<forall>a\<in>set (A @ m # B). f y < f a"
      using Cons.prems True by fastforce
    have b: "\<forall>b\<in>set ([]::'a list). f y \<le> f b" by simp
    from Cons.IH[OF a b] True show ?thesis by simp
  next
    case False
    have b: "\<forall>b\<in>set (B @ [y]). f m \<le> f b"
      using Cons.prems False by auto
    from Cons.IH[OF Cons.prems(1) b] False show ?thesis by simp
  qed
qed

lemma py_min_first:
  assumes "py_min f xs = Some old"
  shows "\<exists>pre post. xs = pre @ old # post \<and> (\<forall>x\<in>set pre. f old < f x) \<and> (\<forall>x\<in>set post. f old \<le> f x)"
proof (cases xs)
  case Nil
  with assms show ?thesis by simp
next
  case (Cons x rest)
  have "\<forall>a\<in>set ([]::'a list). f x < f a" "\<forall>b\<in>set ([]::'a list). f x \<le> f b" by simp_all
  from fold_min_first[OF this, of rest] assms Cons show ?thesis by simp
qed

lemma py_min_None: "py_min f xs = None \<longleftrightarrow> xs = []"
  by (cases xs) simp_all

lemma length_update_le: "length (AList.update k v al) \<le> Suc (length al)"
  by (induction al) auto

lemma length_delete_less: "k \<in> fst ` set al \<Longrightarrow> length (AList.delete k al) < length al"
proof (induction al)
  case Nil
  then show ?case by simp
next
  case (Cons p al)
  show ?case
  proof (cases "fst p = k")
    case True
    have "length (AList.delete k al) \<le> length al" by (rule AList.length_delete_le)
    with True show ?thesis by (cases p) auto
  next
    case False
    with Cons show ?thesis by (cases p) auto
  qed
qed

lemma delete_distinct_split:
  "distinct (map fst (pre @ (k, e) # post)) \<Longrightarrow> AList.delete k (pre @ (k, e) # post) = pre @ post"
proof -
  assume d: "distinct (map fst (pre @ (k, e) # post))"
  have "k \<notin> fst ` set pre" "k \<notin> fst ` set post" using d by auto
  then have "AList.delete k pre = pre" "AList.delete k post = post" by simp_all
  then show ?thesis by (simp add: AList.delete_eq)
qed

lemma cache_file_neq_backup_file: "cache_file s \<noteq> backup_file s"
proof
  assume "cache_file s = backup_file s"
  then have "length (cache_file s) = length (backup_file s)" by simp
  then show False by (simp add: cache_file_def backup_file_def)
qed


subsection \<open>save\_cache\<close>

text \<open>
  The case the handler of \<open>save_cache\<close> is written for: the backing file exists, it
  is renamed to the backup path, the write fails, and the backup is renamed back. The
  backing file then has its former content again (and the backup path is free).
\<close>

lemma save_cache_write_failure_restores:
  assumes "fs (cache_file s) = Some content"
    and "\<not> backup_rename_fails flt"
    and "write_result flt \<noteq> Written"
    and "\<not> restore_rename_fails flt"
  shows "save_cache dumps flt s fs = (None, (fs(cache_file s \<mapsto> content))(backup_file s := None))"
  using assms cache_file_neq_backup_file[of s]
  by (cases "write_result flt")
     (auto simp: save_cache_def save_try_def rename_def Let_def fun_eq_iff)


text \<open>
  The first save of a store whose values \<open>json.dump\<close> cannot encode (the audio cache
  holds \<open>bytes\<close>): there is no backing file and no backup, \<open>open\<close> creates the file,
  \<open>json.dump\<close> raises after a prefix is written, and the handler has nothing to
  restore. The prefix stays on the disk.
\<close>

lemma save_cache_first_write_failure:
  "save_cache dumps
     \<lparr>backup_rename_fails = False, write_result = DumpFails ''{'', restore_rename_fails = False\<rparr>
     \<lparr>name = ''audio'', cache = [(''k'', \<lparr>entry_value = Some v, timestamp = 1\<rparr>)], max_size = 50, ttl = 7200\<rparr>
     Map.empty
   = (None, [''cache_audio.json'' \<mapsto> ''{''])"
  by (simp add: save_cache_def save_try_def cache_file_def backup_file_def)

text \<open>
  Claim C1: if \<open>save\<close> fails at any point (backup rename or write of the new file),
  the backing file's content after \<open>save\<close> returns is identical to its content
  before the attempt.

  The code does not keep this when the failing step is the backup rename and a backup
  file of an earlier save is still on the disk (a successful save never removes it).
  The handler finds that stale backup and renames it over the backing file: here the
  backing file holds \<open>current\<close> before the call and \<open>stale\<close> after it, the backup
  path is free, and \<open>save_cache\<close> returns normally.
\<close>

theorem save_cache_stale_backup:
  "save_cache dumps
     \<lparr>backup_rename_fails = True, write_result = Written, restore_rename_fails = False\<rparr>
     \<lparr>name = ''responses'', cache = [(''k'', \<lparr>entry_value = Some v, timestamp = 1\<rparr>)], max_size = 100, ttl = 3600\<rparr>
     [''cache_responses.json'' \<mapsto> ''current'', ''cache_responses_backup.json'' \<mapsto> ''stale'']
   = (None, [''cache_responses.json'' \<mapsto> ''stale''])"
  by (simp add: save_cache_def save_try_def rename_def cache_file_def backup_file_def fun_eq_iff)



subsection \<open>get\<close>

text \<open>
  \<open>load_cache\<close> keeps an item that has a fresh timestamp and no \<open>'value'\<close>.
\<close>

lemma load_cache_keeps_valueless:
  assumes "fs (''cache_'' @ nm @ ''.json'') = Some content"
    and "json_load content = Some (Object [(key, Item \<lparr>entry_value = None, timestamp = t0\<rparr>)])"
    and "now - t0 < t"
  shows "cache (new_cache_manager json_load False now fs nm msize t)
           = [(key, \<lparr>entry_value = None, timestamp = t0\<rparr>)]"
  using assms by (simp add: new_cache_manager_def load_cache_def cache_file_def)

text \<open>
  Every entry has a value: true of a store made without a backing file, and kept by
  \<open>set\<close> and by \<open>get\<close>.
\<close>

lemma set_update_subset: "set (AList.update k v al) \<subseteq> insert (k, v) (set al)"
  by (induction al) auto

lemma set_delete_subset: "set (AList.delete k al) \<subseteq> set al"
  by (auto simp: AList.delete_eq)

lemma set_entries_keeps_values:
  assumes "\<forall>x\<in>set (cache s). entry_value (snd x) \<noteq> None"
    and "set_entries now key v s = Inr s'"
  shows "\<forall>x\<in>set (cache s'). entry_value (snd x) \<noteq> None"
proof -
  obtain al where al: "cache s' = AList.update key \<lparr>entry_value = Some v, timestamp = now\<rparr> al"
    and sub: "set al \<subseteq> set (cache s)"
    using assms(2) set_delete_subset[of _ "cache s"]
    by (auto simp: set_entries_def split: if_splits option.splits)
  have "set (cache s') \<subseteq> insert (key, \<lparr>entry_value = Some v, timestamp = now\<rparr>) (set (cache s))"
    unfolding al using set_update_subset[of key "\<lparr>entry_value = Some v, timestamp = now\<rparr>" al] sub
    by blast
  then show ?thesis using assms(1) by auto
qed

lemma get_cache_keeps_values:
  assumes "\<forall>x\<in>set (cache s). entry_value (snd x) \<noteq> None"
    and "get_cache now key s = Inr (r, s')"
  shows "\<forall>x\<in>set (cache s'). entry_value (snd x) \<noteq> None"
  using assms set_delete_subset[of key "cache s"]
  by (auto simp: get_cache_def split: option.splits if_splits)





subsection \<open>set\<close>

lemma set_entries_max_size: "set_entries now key v s = Inr s' \<Longrightarrow> max_size s' = max_size s"
  by (auto simp: set_entries_def split: if_splits option.splits)

lemma set_entries_length:
  assumes "set_entries now key v s = Inr s'" and "int (length (cache s)) \<le> max_size s"
  shows "int (length (cache s')) \<le> max_size s"
proof (cases "int (length (cache s)) \<ge> max_size s")
  case True
  then obtain oldest where m: "py_min (\<lambda>x. timestamp (snd x)) (cache s) = Some oldest"
    and s': "cache s' = AList.update key \<lparr>entry_value = Some v, timestamp = now\<rparr> (AList.delete (fst oldest) (cache s))"
    using assms(1) by (auto simp: set_entries_def split: option.splits)
  from py_min_first[OF m] have "fst oldest \<in> fst ` set (cache s)" by force
  then have "length (AList.delete (fst oldest) (cache s)) < length (cache s)"
    by (rule length_delete_less)
  moreover have "length (cache s') \<le> Suc (length (AList.delete (fst oldest) (cache s)))"
    by (simp add: s' length_update_le)
  ultimately show ?thesis using assms(2) by linarith
next
  case False
  then have "cache s' = AList.update key \<lparr>entry_value = Some v, timestamp = now\<rparr> (cache s)"
    using assms(1) by (auto simp: set_entries_def)
  then have "length (cache s') \<le> Suc (length (cache s))"
    by (simp add: length_update_le)
  then show ?thesis using False by linarith
qed

lemma set_cache_store:
  "fst (snd (set_cache dumps flt now key v w)) =
     (case set_entries now key v (fst w) of Inl err \<Rightarrow> fst w | Inr s' \<Rightarrow> s')"
  by (simp add: set_cache_def split: sum.splits prod.splits)

lemma set_cache_bounded:
  assumes "int (length (cache (fst w))) \<le> max_size (fst w)"
  shows "int (length (cache (fst (snd (set_cache dumps flt now key v w))))) \<le> max_size (fst (snd (set_cache dumps flt now key v w)))"
proof (cases "set_entries now key v (fst w)")
  case (Inl err)
  with assms show ?thesis by (simp add: set_cache_store)
next
  case (Inr s')
  with assms set_entries_length[OF Inr] set_entries_max_size[OF Inr]
  show ?thesis by (simp add: set_cache_store)
qed

lemma set_calls_append:
  "set_calls dumps (cs @ ds) w = set_calls dumps ds (set_calls dumps cs w)"
  by (induction cs arbitrary: w) simp_all

lemma set_calls_bounded_all:
  "int (length (cache (fst w))) \<le> max_size (fst w) \<Longrightarrow>
   int (length (cache (fst (set_calls dumps cs w)))) \<le> max_size (fst (set_calls dumps cs w))"
proof (induction cs arbitrary: w)
  case Nil
  then show ?case by simp
next
  case (Cons c cs)
  show ?case
    using Cons.IH[OF set_cache_bounded[OF Cons.prems]] by simp
qed


text \<open>
  Claim C4: for every initial store with \<open>len(entries) \<le> maxSize\<close> and every finite
  sequence of \<open>set\<close> calls, \<open>len(entries) \<le> maxSize\<close> holds after each call: after
  the first \<open>n\<close> calls of the sequence, for every \<open>n\<close>, whatever the disk does and
  also when a call raises.
\<close>

theorem set_calls_bounded:
  "int (length (cache (fst w))) \<le> max_size (fst w) \<Longrightarrow>
   int (length (cache (fst (set_calls dumps (take n cs) w)))) \<le> max_size (fst (set_calls dumps (take n cs) w))"
  by (rule set_calls_bounded_all)


theorem set_calls_bounded_witness:
  "let s = \<lparr>name = ''responses'', cache = [(''a'', \<lparr>entry_value = Some (7::nat), timestamp = 1\<rparr>)],
            max_size = 1, ttl = 3600\<rparr>;
       flt = \<lparr>backup_rename_fails = False, write_result = Written, restore_rename_fails = False\<rparr>;
       cs = [\<lparr>call_faults = flt, call_now = 2, call_key = ''b'', call_value = 8\<rparr>,
             \<lparr>call_faults = flt, call_now = 3, call_key = ''c'', call_value = 9\<rparr>]
   in int (length (cache s)) \<le> max_size s
      \<and> int (length (cache (fst (set_calls (\<lambda>c. []) (take 2 cs) (s, Map.empty)))))
            \<le> max_size (fst (set_calls (\<lambda>c. []) (take 2 cs) (s, Map.empty)))"
  using set_calls_bounded [of
      "(\<lparr>name = ''responses'', cache = [(''a'', \<lparr>entry_value = Some (7::nat), timestamp = 1\<rparr>)],
            max_size = 1, ttl = 3600\<rparr>, Map.empty)"
      "\<lambda>c. []" 2
      "[\<lparr>call_faults = \<lparr>backup_rename_fails = False, write_result = Written, restore_rename_fails = False\<rparr>,
         call_now = 2, call_key = ''b'', call_value = 8\<rparr>,
        \<lparr>call_faults = \<lparr>backup_rename_fails = False, write_result = Written, restore_rename_fails = False\<rparr>,
         call_now = 3, call_key = ''c'', call_value = 9\<rparr>]"]
  by (simp add: Let_def)

text \<open>
  Claim C3, as stated: a \<open>set\<close> that overwrites a key already present in a store
  holding \<open>maxSize\<close> entries evicts no other entry. In the code the test is
  \<open>len(self.cache) >= self.max_size\<close>, whether the key is present or not: with
  \<open>maxSize = 2\<close> and the keys \<open>a\<close> (oldest) and \<open>b\<close>, \<open>set('b', 9)\<close> removes \<open>a\<close>.
\<close>

theorem set_cache_overwrite_evicts:
  "set_cache (concat \<circ> map fst)
     \<lparr>backup_rename_fails = False, write_result = Written, restore_rename_fails = False\<rparr>
     3 ''b'' (9::nat)
     (\<lparr>name = ''responses'',
       cache = [(''a'', \<lparr>entry_value = Some 7, timestamp = 1\<rparr>),
                (''b'', \<lparr>entry_value = Some 8, timestamp = 2\<rparr>)],
       max_size = 2, ttl = 3600\<rparr>,
      Map.empty)
   = (None,
      \<lparr>name = ''responses'',
       cache = [(''b'', \<lparr>entry_value = Some 9, timestamp = 3\<rparr>)],
       max_size = 2, ttl = 3600\<rparr>,
      [''cache_responses.json'' \<mapsto> ''b''])"
  by (simp add: set_cache_def set_entries_def save_cache_def save_try_def cache_file_def)



text \<open>
  Claim C3, amended: for \<open>maxSize > 0\<close>, \<open>set(key, value)\<close> evicts if and only if the
  store already holds at least \<open>maxSize\<close> entries, whether or not \<open>key\<close> is present.
  When it evicts, exactly one entry is removed before the insert: the first, in
  iteration order, among those of minimum \<open>insertedAt\<close> (every entry before it is
  strictly newer, every entry after it is at least as new). With fewer than \<open>maxSize\<close>
  entries nothing is removed.
\<close>

theorem set_cache_eviction:
  assumes "distinct (map fst (cache s))" and "0 < max_size s"
  shows "(max_size s \<le> int (length (cache s)) \<longrightarrow>
            (\<exists>pre old post.
               cache s = pre @ old # post
               \<and> (\<forall>x\<in>set pre. timestamp (snd old) < timestamp (snd x))
               \<and> (\<forall>x\<in>set post. timestamp (snd old) \<le> timestamp (snd x))
               \<and> cache (fst (snd (set_cache dumps flt now key v (s, fs)))) =
                   AList.update key \<lparr>entry_value = Some v, timestamp = now\<rparr> (pre @ post)))
       \<and> (int (length (cache s)) < max_size s \<longrightarrow>
            cache (fst (snd (set_cache dumps flt now key v (s, fs)))) =
              AList.update key \<lparr>entry_value = Some v, timestamp = now\<rparr> (cache s))"
proof (intro conjI impI)
  assume full: "max_size s \<le> int (length (cache s))"
  with assms(2) have "cache s \<noteq> []" by auto
  then obtain old where m: "py_min (\<lambda>x. timestamp (snd x)) (cache s) = Some old"
    using py_min_None[of "\<lambda>x. timestamp (snd x)" "cache s"] by (cases "py_min (\<lambda>x. timestamp (snd x)) (cache s)") auto
  from py_min_first[OF m] obtain pre post where
    split: "cache s = pre @ old # post"
    and pre: "\<forall>x\<in>set pre. timestamp (snd old) < timestamp (snd x)"
    and post: "\<forall>x\<in>set post. timestamp (snd old) \<le> timestamp (snd x)"
    by blast
  have "AList.delete (fst old) (pre @ (fst old, snd old) # post) = pre @ post"
    using assms(1) split by (intro delete_distinct_split) simp
  then have del: "AList.delete (fst old) (cache s) = pre @ post"
    using split by simp
  have "cache (fst (snd (set_cache dumps flt now key v (s, fs)))) =
          AList.update key \<lparr>entry_value = Some v, timestamp = now\<rparr> (pre @ post)"
    using full m del by (simp add: set_cache_store set_entries_def)
  with split pre post
  show "\<exists>pre old post.
               cache s = pre @ old # post
               \<and> (\<forall>x\<in>set pre. timestamp (snd old) < timestamp (snd x))
               \<and> (\<forall>x\<in>set post. timestamp (snd old) \<le> timestamp (snd x))
               \<and> cache (fst (snd (set_cache dumps flt now key v (s, fs)))) =
                   AList.update key \<lparr>entry_value = Some v, timestamp = now\<rparr> (pre @ post)"
    by blast
next
  assume "int (length (cache s)) < max_size s"
  then show "cache (fst (snd (set_cache dumps flt now key v (s, fs)))) =
              AList.update key \<lparr>entry_value = Some v, timestamp = now\<rparr> (cache s)"
    by (simp add: set_cache_store set_entries_def)
qed


theorem set_cache_eviction_witness:
  "let s = \<lparr>name = ''responses'',
            cache = [(''a'', \<lparr>entry_value = Some (7::nat), timestamp = 5\<rparr>),
                     (''b'', \<lparr>entry_value = Some 8, timestamp = 2\<rparr>),
                     (''c'', \<lparr>entry_value = Some 6, timestamp = 2\<rparr>)],
            max_size = 3, ttl = 3600\<rparr>;
       flt = \<lparr>backup_rename_fails = False, write_result = Written, restore_rename_fails = False\<rparr>
   in distinct (map fst (cache s)) \<and> 0 < max_size s \<and> max_size s \<le> int (length (cache s))
      \<and> cache (fst (snd (set_cache (\<lambda>c. []) flt 9 ''d'' 1 (s, Map.empty)))) =
           [(''a'', \<lparr>entry_value = Some 7, timestamp = 5\<rparr>),
            (''c'', \<lparr>entry_value = Some 6, timestamp = 2\<rparr>),
            (''d'', \<lparr>entry_value = Some 1, timestamp = 9\<rparr>)]"
  using set_cache_eviction [of
      "\<lparr>name = ''responses'',
            cache = [(''a'', \<lparr>entry_value = Some (7::nat), timestamp = 5\<rparr>),
                     (''b'', \<lparr>entry_value = Some 8, timestamp = 2\<rparr>),
                     (''c'', \<lparr>entry_value = Some 6, timestamp = 2\<rparr>)],
            max_size = 3, ttl = 3600\<rparr>"
      "\<lambda>c. []"
      "\<lparr>backup_rename_fails = False, write_result = Written, restore_rename_fails = False\<rparr>"
      9 "''d''" 1 Map.empty]
  by (simp add: set_cache_def set_entries_def save_cache_def save_try_def Let_def)

subsection \<open>load\_cache\<close>

lemma valid_entries_fresh:
  "valid_entries now t items = Inr kept \<Longrightarrow> \<forall>x\<in>set kept. now - timestamp (snd x) < t"
proof (induction now t items arbitrary: kept rule: valid_entries.induct)
  case (1 now t)
  then show ?case by simp
next
  case (2 now t k xs)
  then show ?case by simp
next
  case (3 now t k e xs)
  then show ?case by (auto split: sum.splits if_splits)
qed

lemma valid_entries_filter:
  "\<forall>x\<in>set items. snd x \<noteq> BadItem \<Longrightarrow>
   valid_entries now t items =
     Inr (map (\<lambda>x. (fst x, case snd x of Item e \<Rightarrow> e))
            (filter (\<lambda>x. case snd x of Item e \<Rightarrow> now - timestamp e < t | BadItem \<Rightarrow> False) items))"
proof (induction now t items rule: valid_entries.induct)
  case (1 now t)
  then show ?case by simp
next
  case (2 now t k xs)
  then show ?case by simp
next
  case (3 now t k e xs)
  then show ?case by simp
qed

lemma cache_file_load: "cache_file (load_cache json_load read_fails now fs s) = cache_file s"
  by (simp add: load_cache_def cache_file_def split: option.splits json_doc.splits sum.splits)

lemma valid_entries_bad:
  "\<exists>x\<in>set items. snd x = BadItem \<Longrightarrow> \<exists>err. valid_entries now t items = Inl err"
proof (induction now t items rule: valid_entries.induct)
  case (1 now t)
  then show ?case by simp
next
  case (2 now t k xs)
  then show ?case by simp
next
  case (3 now t k e xs)
  then show ?case by auto
qed

lemma load_cache_all_fresh:
  "\<forall>x\<in>set (cache s). now - timestamp (snd x) < ttl s \<Longrightarrow>
   \<forall>x\<in>set (cache (load_cache json_load read_fails now fs s)). now - timestamp (snd x) < ttl s"
  by (auto simp: load_cache_def dest: valid_entries_fresh split: option.splits json_doc.splits sum.splits)


text \<open>
  Claim C9: \<open>load\<close>, run once at construction, populates the in-memory mapping only
  with entries whose age relative to \<open>now\<close> is below \<open>ttl\<close>; a missing backing file
  and a backing file that cannot be read or decoded (a decoding error, a document that
  is not an object, an item without a usable timestamp) yield an empty store; from a
  well-formed file exactly the entries that are not expired are kept.
  \<open>new_cache_manager\<close> is a total function: every exception of \<open>load_cache\<close> is caught
  inside it.
\<close>

theorem load_cache_fresh:
  "(\<forall>x\<in>set (cache (new_cache_manager json_load read_fails now fs nm msize t)).
       now - timestamp (snd x) < t)
   \<and> (fs (''cache_'' @ nm @ ''.json'') = None \<longrightarrow>
        cache (new_cache_manager json_load read_fails now fs nm msize t) = [])
   \<and> (\<forall>content. fs (''cache_'' @ nm @ ''.json'') = Some content
         \<and> (read_fails \<or> json_load content = None \<or> json_load content = Some NotObject
              \<or> (\<exists>items. json_load content = Some (Object items) \<and> (\<exists>x\<in>set items. snd x = BadItem))) \<longrightarrow>
        cache (new_cache_manager json_load read_fails now fs nm msize t) = [])
   \<and> (\<forall>content items. fs (''cache_'' @ nm @ ''.json'') = Some content \<and> \<not> read_fails
         \<and> json_load content = Some (Object items) \<and> (\<forall>x\<in>set items. snd x \<noteq> BadItem) \<longrightarrow>
        cache (new_cache_manager json_load read_fails now fs nm msize t) =
          map (\<lambda>x. (fst x, case snd x of Item e \<Rightarrow> e))
            (filter (\<lambda>x. case snd x of Item e \<Rightarrow> now - timestamp e < t | BadItem \<Rightarrow> False) items))"
proof (intro conjI allI impI)
  show "\<forall>x\<in>set (cache (new_cache_manager json_load read_fails now fs nm msize t)). now - timestamp (snd x) < t"
    using load_cache_all_fresh[of "\<lparr>name = nm, cache = [], max_size = msize, ttl = t\<rparr>" now json_load read_fails fs]
    by (simp add: new_cache_manager_def)
next
  assume "fs (''cache_'' @ nm @ ''.json'') = None"
  then show "cache (new_cache_manager json_load read_fails now fs nm msize t) = []"
    by (simp add: new_cache_manager_def load_cache_def cache_file_def)
next
  fix content
  assume a: "fs (''cache_'' @ nm @ ''.json'') = Some content
         \<and> (read_fails \<or> json_load content = None \<or> json_load content = Some NotObject
              \<or> (\<exists>items. json_load content = Some (Object items) \<and> (\<exists>x\<in>set items. snd x = BadItem)))"
  then show "cache (new_cache_manager json_load read_fails now fs nm msize t) = []"
    using valid_entries_bad[of _ now t]
    by (fastforce simp: new_cache_manager_def load_cache_def cache_file_def split: sum.splits)
next
  fix content items
  assume a: "fs (''cache_'' @ nm @ ''.json'') = Some content \<and> \<not> read_fails
         \<and> json_load content = Some (Object items) \<and> (\<forall>x\<in>set items. snd x \<noteq> BadItem)"
  then show "cache (new_cache_manager json_load read_fails now fs nm msize t) =
          map (\<lambda>x. (fst x, case snd x of Item e \<Rightarrow> e))
            (filter (\<lambda>x. case snd x of Item e \<Rightarrow> now - timestamp e < t | BadItem \<Rightarrow> False) items)"
    using valid_entries_filter[of items now t]
    by (simp add: new_cache_manager_def load_cache_def cache_file_def)
qed


theorem load_cache_fresh_witness:
  "let json_load = (\<lambda>b. if b = ''ok'' then
                           Some (Object [(''old'', Item \<lparr>entry_value = Some (1::nat), timestamp = 10\<rparr>),
                                         (''new'', Item \<lparr>entry_value = Some 2, timestamp = 4000\<rparr>)])
                         else None)
   in cache (new_cache_manager json_load False 5000 [''cache_responses.json'' \<mapsto> ''ok''] ''responses'' 100 3600)
        = [(''new'', \<lparr>entry_value = Some 2, timestamp = 4000\<rparr>)]
      \<and> cache (new_cache_manager json_load False 5000 [''cache_responses.json'' \<mapsto> ''{''] ''responses'' 100 3600) = []
      \<and> cache (new_cache_manager json_load False 5000 Map.empty ''responses'' 100 3600) = []"
  using load_cache_fresh [of
      "\<lambda>b. if b = ''ok'' then
                           Some (Object [(''old'', Item \<lparr>entry_value = Some (1::nat), timestamp = 10\<rparr>),
                                         (''new'', Item \<lparr>entry_value = Some 2, timestamp = 4000\<rparr>)])
                         else None"
      False 5000 "[''cache_responses.json'' \<mapsto> ''ok'']" "''responses''" 100 3600]
  by (simp add: new_cache_manager_def load_cache_def cache_file_def Let_def)

section \<open>Properties of the video manager\<close>

text \<open>
  Claim C7: \<open>selectTalkingClip\<close> maps the response length to a fixed clip by three
  tiers, for a catalog that configures the three clips: every length below 50 yields
  the first (short) clip, every length from 50 and below 100 the second (medium) clip,
  every length from 100 the third (long) clip; in particular 10 gives short, 75 medium,
  500 long, 50 medium and 100 long.
\<close>

theorem get_talking_video_tiers:
  assumes "talking (config vm) = short # medium # long # others"
  shows "get_talking_video n vm =
           Inr (PathJoin (video_dir vm) (if n < 50 then short else if n < 100 then medium else long))
         \<and> get_talking_video 10 vm = Inr (PathJoin (video_dir vm) short)
         \<and> get_talking_video 75 vm = Inr (PathJoin (video_dir vm) medium)
         \<and> get_talking_video 500 vm = Inr (PathJoin (video_dir vm) long)
         \<and> get_talking_video 50 vm = Inr (PathJoin (video_dir vm) medium)
         \<and> get_talking_video 100 vm = Inr (PathJoin (video_dir vm) long)"
  using assms by (simp add: get_talking_video_def py_index_def Let_def)

theorem get_talking_video_tiers_witness:
  "let vm = \<lparr>video_dir = ''videos'',
             config = \<lparr>idle = [''00'' \<mapsto> ''idle.mp4''], talking = [''s.mp4'', ''m.mp4'', ''l.mp4''],
                       idle_pattern = Some []\<rparr>,
             current_idle_index = 0, current_repeat = 0\<rparr>
   in get_talking_video 49 vm = Inr (PathJoin ''videos'' ''s.mp4'')
      \<and> get_talking_video 50 vm = Inr (PathJoin ''videos'' ''m.mp4'')
      \<and> get_talking_video 99 vm = Inr (PathJoin ''videos'' ''m.mp4'')
      \<and> get_talking_video 100 vm = Inr (PathJoin ''videos'' ''l.mp4'')"
  using get_talking_video_tiers [of "\<lparr>video_dir = ''videos'',
             config = \<lparr>idle = [''00'' \<mapsto> ''idle.mp4''], talking = [''s.mp4'', ''m.mp4'', ''l.mp4''],
                       idle_pattern = Some []\<rparr>,
             current_idle_index = 0, current_repeat = 0\<rparr>" "''s.mp4''" "''m.mp4''" "''l.mp4''" "[]" 49]
    get_talking_video_tiers [of "\<lparr>video_dir = ''videos'',
             config = \<lparr>idle = [''00'' \<mapsto> ''idle.mp4''], talking = [''s.mp4'', ''m.mp4'', ''l.mp4''],
                       idle_pattern = Some []\<rparr>,
             current_idle_index = 0, current_repeat = 0\<rparr>" "''s.mp4''" "''m.mp4''" "''l.mp4''" "[]" 99]
  by (simp add: Let_def)


text \<open>
  Claim C8, as stated: \<open>nextIdleStep\<close> never raises, for any configuration. The
  handler of \<open>get_next_idle_video\<close> reads \<open>config['video_files']['idle']['00']\<close>
  outside any \<open>try\<close>: with a catalog whose idle videos have no key \<open>00\<close> and a
  pattern step that names an unknown key, the \<open>KeyError\<close> of the handler leaves the
  function.
\<close>

theorem get_next_idle_video_raises:
  "get_next_idle_video
     \<lparr>video_dir = ''videos'',
      config = \<lparr>idle = [''01'' \<mapsto> ''idle1.mp4''], talking = [''s.mp4'', ''m.mp4'', ''l.mp4''],
                idle_pattern = Some [\<lparr>video = Some ''02'', repeat = Some 1\<rparr>]\<rparr>,
      current_idle_index = 0, current_repeat = 0\<rparr>
   = Inl KeyError"
  by (simp add: get_next_idle_video_def next_idle_try_def py_index_def)


text \<open>
  Claim C8, amended: for every configuration that has an idle video under the key
  \<open>00\<close>, and every cursor, \<open>nextIdleStep\<close> returns: on any internal error (missing
  pattern, index out of range, missing key of a step, unknown video key) it returns
  that default video with boundary-crossed signalled and leaves the cursor as it was;
  otherwise it returns what the step computes.
\<close>

theorem get_next_idle_video_failsafe:
  assumes "idle (config vm) ''00'' = Some fallback_video"
  shows "(\<exists>out vm'. get_next_idle_video vm = Inr (out, vm'))
         \<and> (\<forall>e. next_idle_try vm = Inl e \<longrightarrow>
               get_next_idle_video vm = Inr ((PathJoin (video_dir vm) fallback_video, True), vm))
         \<and> (\<forall>r. next_idle_try vm = Inr r \<longrightarrow> get_next_idle_video vm = Inr r)"
  using assms by (cases "next_idle_try vm") (auto simp: get_next_idle_video_def)


theorem get_next_idle_video_failsafe_witness:
  "let vm = \<lparr>video_dir = ''videos'',
             config = \<lparr>idle = [''00'' \<mapsto> ''idle0.mp4''], talking = [''s.mp4'', ''m.mp4'', ''l.mp4''],
                       idle_pattern = Some [\<lparr>video = Some ''02'', repeat = Some 1\<rparr>]\<rparr>,
             current_idle_index = 5, current_repeat = 0\<rparr>
   in next_idle_try vm = Inl IndexError
      \<and> get_next_idle_video vm = Inr ((PathJoin ''videos'' ''idle0.mp4'', True), vm)"
  using get_next_idle_video_failsafe [of
      "\<lparr>video_dir = ''videos'',
             config = \<lparr>idle = [''00'' \<mapsto> ''idle0.mp4''], talking = [''s.mp4'', ''m.mp4'', ''l.mp4''],
                       idle_pattern = Some [\<lparr>video = Some ''02'', repeat = Some 1\<rparr>]\<rparr>,
             current_idle_index = 5, current_repeat = 0\<rparr>" "''idle0.mp4''"]
  by (simp add: next_idle_try_def py_index_def Let_def)

subsection \<open>Idle stepping\<close>

lemma next_idle_try_step:
  assumes "idle_pattern (config vm) = Some pat"
    and "py_index pat (current_idle_index vm) = Some step"
    and "video step = Some key"
    and "idle (config vm) key = Some fname"
    and "repeat step = Some r"
  shows "get_next_idle_video vm =
           (if current_repeat vm \<ge> r - 1 then
              Inr ((PathJoin (video_dir vm) fname, True),
                   vm\<lparr>current_repeat := 0,
                      current_idle_index := (current_idle_index vm + 1) mod int (length pat)\<rparr>)
            else Inr ((PathJoin (video_dir vm) fname, False),
                      vm\<lparr>current_repeat := current_repeat vm + 1\<rparr>))"
  using assms by (simp add: get_next_idle_video_def next_idle_try_def)



lemma idle_steps_from:
  assumes "idle_pattern (config vm) = Some pat"
    and "py_index pat (current_idle_index vm) = Some step"
    and "video step = Some key"
    and "idle (config vm) key = Some fname"
    and "repeat step = Some r"
    and "current_repeat vm = r - 1 - int n"
  shows "idle_steps (Suc n) vm =
           Inr (replicate n (PathJoin (video_dir vm) fname, False)
                  @ [(PathJoin (video_dir vm) fname, True)],
                vm\<lparr>current_repeat := 0,
                   current_idle_index := (current_idle_index vm + 1) mod int (length pat)\<rparr>)"
  using assms
proof (induction n arbitrary: vm)
  case 0
  then have "current_repeat vm \<ge> r - 1" by simp
  then have "get_next_idle_video vm =
      Inr ((PathJoin (video_dir vm) fname, True),
           vm\<lparr>current_repeat := 0,
              current_idle_index := (current_idle_index vm + 1) mod int (length pat)\<rparr>)"
    using next_idle_try_step[OF "0.prems"(1-5)] by simp
  then show ?case by simp
next
  case (Suc n)
  define vm' where "vm' = vm\<lparr>current_repeat := current_repeat vm + 1\<rparr>"
  have lt: "\<not> current_repeat vm \<ge> r - 1" using Suc.prems(6) by simp
  have first: "get_next_idle_video vm = Inr ((PathJoin (video_dir vm) fname, False), vm')"
    using next_idle_try_step[OF Suc.prems(1-5)] lt by (simp add: vm'_def)
  have p1: "idle_pattern (config vm') = Some pat" using Suc.prems(1) by (simp add: vm'_def)
  have p2: "py_index pat (current_idle_index vm') = Some step" using Suc.prems(2) by (simp add: vm'_def)
  have p4: "idle (config vm') key = Some fname" using Suc.prems(4) by (simp add: vm'_def)
  have p6: "current_repeat vm' = r - 1 - int n" using Suc.prems(6) by (simp add: vm'_def)
  have rest: "idle_steps (Suc n) vm' =
           Inr (replicate n (PathJoin (video_dir vm') fname, False)
                  @ [(PathJoin (video_dir vm') fname, True)],
                vm'\<lparr>current_repeat := 0,
                   current_idle_index := (current_idle_index vm' + 1) mod int (length pat)\<rparr>)"
    by (rule Suc.IH[OF p1 p2 Suc.prems(3) p4 Suc.prems(5) p6])
  have dir: "video_dir vm' = video_dir vm" "current_idle_index vm' = current_idle_index vm"
    by (simp_all add: vm'_def)
  have upd: "vm'\<lparr>current_repeat := 0,
                   current_idle_index := (current_idle_index vm + 1) mod int (length pat)\<rparr>
           = vm\<lparr>current_repeat := 0,
                   current_idle_index := (current_idle_index vm + 1) mod int (length pat)\<rparr>"
    by (simp add: vm'_def)
  have "idle_steps (Suc (Suc n)) vm =
          (case idle_steps (Suc n) vm' of
             Inl e \<Rightarrow> Inl e
           | Inr (outs, vm'') \<Rightarrow> Inr ((PathJoin (video_dir vm) fname, False) # outs, vm''))"
    unfolding idle_steps.simps(2)[of "Suc n" vm] first by simp
  also have "\<dots> = Inr (replicate (Suc n) (PathJoin (video_dir vm) fname, False)
                  @ [(PathJoin (video_dir vm) fname, True)],
                vm\<lparr>current_repeat := 0,
                   current_idle_index := (current_idle_index vm + 1) mod int (length pat)\<rparr>)"
    unfolding rest dir upd by simp
  finally show ?case .
qed

text \<open>
  Claim C6: for every pattern step with \<open>repeatCount r \<ge> 1\<close> (a step of the pattern
  whose video key is in the catalog), \<open>r\<close> calls of \<open>nextIdleStep\<close> that start with
  the cursor at that step and \<open>repeatsDone = 0\<close> all succeed and return the same video;
  boundary-crossed is signalled on the \<open>r\<close>-th call only; afterwards the cursor is at
  the next pattern index modulo the pattern length, with \<open>repeatsDone = 0\<close>.
\<close>

theorem idle_steps_repeat:
  assumes "idle_pattern (config vm) = Some pat"
    and "py_index pat (current_idle_index vm) = Some step"
    and "video step = Some key"
    and "idle (config vm) key = Some fname"
    and "repeat step = Some r"
    and "1 \<le> r"
    and "current_repeat vm = 0"
  shows "idle_steps (nat r) vm =
           Inr (replicate (nat r - 1) (PathJoin (video_dir vm) fname, False)
                  @ [(PathJoin (video_dir vm) fname, True)],
                vm\<lparr>current_repeat := 0,
                   current_idle_index := (current_idle_index vm + 1) mod int (length pat)\<rparr>)"
proof -
  define n where "n = nat r - 1"
  have n: "nat r = Suc n" using assms(6) by (simp add: n_def)
  have c: "current_repeat vm = r - 1 - int n" using assms(6,7) by (simp add: n_def)
  show ?thesis
    unfolding n using idle_steps_from[OF assms(1-5) c] by simp
qed

theorem idle_steps_repeat_witness:
  "let vm = \<lparr>video_dir = ''videos'',
             config = \<lparr>idle = [''00'' \<mapsto> ''idle0.mp4'', ''01'' \<mapsto> ''idle1.mp4''],
                       talking = [''s.mp4'', ''m.mp4'', ''l.mp4''],
                       idle_pattern = Some [\<lparr>video = Some ''00'', repeat = Some 2\<rparr>,
                                            \<lparr>video = Some ''01'', repeat = Some 3\<rparr>]\<rparr>,
             current_idle_index = 1, current_repeat = 0\<rparr>
   in idle_steps 3 vm =
        Inr ([(PathJoin ''videos'' ''idle1.mp4'', False), (PathJoin ''videos'' ''idle1.mp4'', False),
              (PathJoin ''videos'' ''idle1.mp4'', True)],
             vm\<lparr>current_repeat := 0, current_idle_index := 0\<rparr>)"
  using idle_steps_repeat [of "\<lparr>video_dir = ''videos'',
             config = \<lparr>idle = [''00'' \<mapsto> ''idle0.mp4'', ''01'' \<mapsto> ''idle1.mp4''],
                       talking = [''s.mp4'', ''m.mp4'', ''l.mp4''],
                       idle_pattern = Some [\<lparr>video = Some ''00'', repeat = Some 2\<rparr>,
                                            \<lparr>video = Some ''01'', repeat = Some 3\<rparr>]\<rparr>,
             current_idle_index = 1, current_repeat = 0\<rparr>"
          "[\<lparr>video = Some ''00'', repeat = Some 2\<rparr>, \<lparr>video = Some ''01'', repeat = Some 3\<rparr>]"
          "\<lparr>video = Some ''01'', repeat = Some 3\<rparr>" "''01''" "''idle1.mp4''" 3]
  by (simp add: py_index_def Let_def numeral_2_eq_2)

section \<open>Properties of the synchronizer\<close>

subsection \<open>One call of \<open>sync_media\<close> and the steps of its task\<close>

lemma length_tasks_stop: "length (tasks (stop_current_playback s)) = length (tasks s)"
  by (simp add: stop_current_playback_def deliver_cancel_def cancelled_inside_def
           split: option.splits task.splits)

lemma sync_media_fields:
  "fst (sync_media v a s)
   \<and> tasks (snd (sync_media v a s)) = tasks (stop_current_playback s) @ [Created]
   \<and> current_task (snd (sync_media v a s)) = Some (length (tasks s))
   \<and> video_queue (snd (sync_media v a s)) = [v]
   \<and> audio_queue (snd (sync_media v a s)) = [a]
   \<and> is_playing (snd (sync_media v a s))
   \<and> current_video_path (snd (sync_media v a s)) = current_video_path (stop_current_playback s)
   \<and> current_audio_data (snd (sync_media v a s)) = current_audio_data (stop_current_playback s)
   \<and> start_time (snd (sync_media v a s)) = start_time (stop_current_playback s)"
  by (simp add: sync_media_def clear_queues_def Let_def length_tasks_stop)

lemma run_created:
  assumes "i < length (tasks s)" and "tasks s ! i = Created"
    and "video_queue s = [v]" and "audio_queue s = [a]"
  shows "run_task i now s =
           s\<lparr>video_queue := [], audio_queue := [],
             current_video_path := path v, current_audio_data := Some a, start_time := now,
             tasks := (tasks s)[i := Sleeping v a (now + (case duration v of None \<Rightarrow> 0 | Some d \<Rightarrow> d))]\<rparr>"
  using assms by (simp add: run_task_def play_get_video_def play_get_audio_def)

lemma run_sleeping:
  assumes "i < length (tasks s)" and "tasks s ! i = Sleeping v a wake" and "wake \<le> now"
  shows "run_task i now s = play_complete i s"
  using assms by (simp add: run_task_def)


text \<open>
  Claim C10: if the video metadata passed to \<open>syncMedia\<close> has no duration, the
  playback session treats the duration as 0. From any state of the manager,
  \<open>sync_media\<close> returns \<open>True\<close> and creates the task; the first run of the task, at
  time \<open>now\<close>, suspends in a sleep whose wake-up time is \<open>now\<close> itself; the next run,
  at the same instant, ends the task and leaves \<open>is_playing\<close> false and video, audio
  and start time idle. No step raises and none waits for the clock.
\<close>

theorem play_without_duration:
  assumes "duration v = None"
  shows "fst (sync_media v a s)
     \<and> current_task (snd (sync_media v a s)) = Some (length (tasks s))
     \<and> tasks (run_task (length (tasks s)) now (snd (sync_media v a s))) ! length (tasks s)
          = Sleeping v a now
     \<and> tasks (run_task (length (tasks s)) now
                (run_task (length (tasks s)) now (snd (sync_media v a s)))) ! length (tasks s)
          = Finished
     \<and> get_playback_status now
          (run_task (length (tasks s)) now
             (run_task (length (tasks s)) now (snd (sync_media v a s))))
          = \<lparr>st_is_playing = False, st_current_video = None, st_has_audio = False,
             st_elapsed_time = 0\<rparr>
     \<and> start_time (run_task (length (tasks s)) now
             (run_task (length (tasks s)) now (snd (sync_media v a s)))) = 0"
proof -
  define i where "i = length (tasks s)"
  define s1 where "s1 = snd (sync_media v a s)"
  define s2 where "s2 = run_task i now s1"
  note f = sync_media_fields[of v a s, folded s1_def i_def]
  have len1: "i < length (tasks s1)" using f by (simp add: i_def length_tasks_stop)
  have cr: "tasks s1 ! i = Created" using f by (simp add: i_def nth_append length_tasks_stop)
  have s2: "s2 = s1\<lparr>video_queue := [], audio_queue := [],
             current_video_path := path v, current_audio_data := Some a, start_time := now,
             tasks := (tasks s1)[i := Sleeping v a now]\<rparr>"
    unfolding s2_def using run_created[OF len1 cr, of v a now] f assms by simp
  have len2: "i < length (tasks s2)" using len1 by (simp add: s2)
  have sl: "tasks s2 ! i = Sleeping v a now" using len1 by (simp add: s2)
  have s3: "run_task i now s2 = play_complete i s2"
    by (rule run_sleeping[OF len2 sl]) simp
  show ?thesis
    unfolding i_def[symmetric] s1_def[symmetric] s2_def[symmetric] s3
    using f sl len2 by (simp add: play_complete_def get_playback_status_def)
qed


theorem play_without_duration_witness:
  "duration \<lparr>path = Some ''talk.mp4'', duration = None\<rparr> = None
   \<and> tasks (run_task 0 5 (snd (sync_media \<lparr>path = Some ''talk.mp4'', duration = None\<rparr> ''audio'' new_sync_manager)))
        = [Sleeping \<lparr>path = Some ''talk.mp4'', duration = None\<rparr> ''audio'' 5]
   \<and> get_playback_status 5
        (run_task 0 5 (run_task 0 5
           (snd (sync_media \<lparr>path = Some ''talk.mp4'', duration = None\<rparr> ''audio'' new_sync_manager))))
        = \<lparr>st_is_playing = False, st_current_video = None, st_has_audio = False, st_elapsed_time = 0\<rparr>"
  using play_without_duration [of "\<lparr>path = Some ''talk.mp4'', duration = None\<rparr>" "''audio''" new_sync_manager 5]
  by (simp add: new_sync_manager_def sync_media_def stop_current_playback_def clear_queues_def
        run_task_def play_get_video_def play_get_audio_def Let_def)


subsection \<open>The session invariant\<close>

















subsection \<open>Two calls of \<open>sync_media\<close>\<close>





end
